theory Spec2Isabelle
  imports Complex_Main "HOL-Library.Sublist"
begin

section \<open>The datastore of MarkovRanking.py\<close>

text \<open>
  The SQLite database behind \<^verbatim>\<open>DataModule\<close> holds two tables. A row of
  \<^verbatim>\<open>elements\<close> is a name (\<^verbatim>\<open>class TEXT UNIQUE\<close>) and an
  \<^verbatim>\<open>INTEGER PRIMARY KEY AUTOINCREMENT\<close> id; a row of \<^verbatim>\<open>relations\<close>
  is the child's name, its own id, the three statistics and the nullable
  \<^verbatim>\<open>parent_id\<close>. Tables are lists in rowid order. Names are Python byte strings,
  counts are Python integers, and ratings are modelled as exact reals (the rounding of the
  \<^verbatim>\<open>REAL\<close> columns is not part of the model).
\<close>

datatype error = IntegrityError

record element_row =
  e_class :: string
  e_id :: nat

record relation_row =
  r_class :: string
  r_id :: nat
  r_count :: int
  r_rating_sum :: real
  r_rating_sum_squares :: real
  r_parent_id :: "nat option"

text \<open>
  The content of the database file: the two tables and the
  \<^verbatim>\<open>sqlite_sequence\<close> counters of their AUTOINCREMENT keys (the largest id
  handed out so far).
\<close>

record database =
  file_elements :: "element_row list"
  file_relations :: "relation_row list"
  file_elements_seq :: nat
  file_relations_seq :: nat

text \<open>
  A \<^verbatim>\<open>DataModule\<close> is its connection: the tables and counters as the connection
  sees them (with the changes of the open transaction) and, in \<open>committed\<close>, the content
  of the database file, which is what the last \<^verbatim>\<open>conn.commit()\<close> wrote.
\<close>

record DataModule =
  elements :: "element_row list"
  relations :: "relation_row list"
  elements_seq :: nat
  relations_seq :: nat
  committed :: database

definition empty_database :: database where
  "empty_database =
     \<lparr>file_elements = [], file_relations = [], file_elements_seq = 0, file_relations_seq = 0\<rparr>"

text \<open>
  What the connection would write to the file now.
\<close>

definition pending :: "DataModule \<Rightarrow> database" where
  "pending dm =
     \<lparr>file_elements = elements dm, file_relations = relations dm,
      file_elements_seq = elements_seq dm, file_relations_seq = relations_seq dm\<rparr>"

text \<open>
  \<^verbatim>\<open>create_tables\<close>: both tables are dropped (which also forgets their
  AUTOINCREMENT counters) and created again, then the connection commits.
\<close>

definition create_tables :: "DataModule \<Rightarrow> DataModule" where
  "create_tables dm =
     \<lparr>elements = [], relations = [], elements_seq = 0, relations_seq = 0,
      committed = empty_database\<rparr>"

text \<open>
  \<^verbatim>\<open>__init__(database)\<close>: connect to the file, whose content is \<open>database\<close>, and
  call \<^verbatim>\<open>create_tables\<close>.
\<close>

definition connect :: "database \<Rightarrow> DataModule" where
  "connect database =
     \<lparr>elements = file_elements database, relations = file_relations database,
      elements_seq = file_elements_seq database, relations_seq = file_relations_seq database,
      committed = database\<rparr>"

definition DataModule_init :: "database \<Rightarrow> DataModule" where
  "DataModule_init database = create_tables (connect database)"

text \<open>
  SQL comparison with a bound parameter or a column that may be NULL: \<^verbatim>\<open>a = b\<close> is
  true only when both sides are present and equal (\<^verbatim>\<open>NULL = NULL\<close> is not true).
\<close>

fun sql_eq :: "'a option \<Rightarrow> 'a option \<Rightarrow> bool" where
  "sql_eq (Some a) (Some b) = (a = b)"
| "sql_eq _ _ = False"

definition existsRootElement :: "DataModule \<Rightarrow> string \<Rightarrow> bool" where
  "existsRootElement dm name = (find (\<lambda>e. e_class e = name) (elements dm) \<noteq> None)"

text \<open>
  \<^verbatim>\<open>getRootElementId\<close>: \<^verbatim>\<open>fetchone()[0]\<close> of an empty result raises inside the
  \<^verbatim>\<open>try\<close>, and the bare \<^verbatim>\<open>except\<close> returns \<^verbatim>\<open>None\<close>.
\<close>

definition getRootElementId :: "DataModule \<Rightarrow> string \<Rightarrow> nat option" where
  "getRootElementId dm name =
     (case find (\<lambda>e. e_class e = name) (elements dm) of
        Some e \<Rightarrow> Some (e_id e)
      | None \<Rightarrow> None)"

text \<open>
  The join of \<^verbatim>\<open>getChildren\<close>, \<^verbatim>\<open>getChildId\<close> and \<^verbatim>\<open>computeRating\<close>:
  the relation rows whose \<^verbatim>\<open>parent_id\<close> is the id of an element row named \<open>parent\<close>.
\<close>

definition joined_rows :: "DataModule \<Rightarrow> string \<Rightarrow> relation_row list" where
  "joined_rows dm parent =
     concat (map (\<lambda>e. filter (\<lambda>r. r_parent_id r = Some (e_id e)) (relations dm))
                 (filter (\<lambda>e. e_class e = parent) (elements dm)))"

definition getChildren :: "DataModule \<Rightarrow> string \<Rightarrow> (string \<times> int \<times> real \<times> real) list" where
  "getChildren dm parent =
     map (\<lambda>r. (r_class r, r_count r, r_rating_sum r, r_rating_sum_squares r))
         (joined_rows dm parent)"

definition select_child :: "DataModule \<Rightarrow> string \<Rightarrow> nat option \<Rightarrow> relation_row list" where
  "select_child dm child parent_id =
     filter (\<lambda>r. r_class r = child \<and> sql_eq (r_parent_id r) parent_id) (relations dm)"

text \<open>
  \<^verbatim>\<open>existsChildElement\<close> executes its SELECT and ends: the rows stay in the cursor
  and the method returns Python's \<^verbatim>\<open>None\<close>, here \<open>None :: bool option\<close>.
\<close>

definition existsChildElement :: "DataModule \<Rightarrow> string \<Rightarrow> string \<Rightarrow> bool option" where
  "existsChildElement dm parent child =
     (let parent_id = getRootElementId dm parent;
          cursor = select_child dm child parent_id
      in None)"

text \<open>
  \<^verbatim>\<open>addRootElement\<close>: the INSERT breaks \<^verbatim>\<open>class TEXT UNIQUE\<close> when the name is
  stored already, and sqlite3 raises \<^verbatim>\<open>IntegrityError\<close>; the statement then changes
  nothing. Otherwise the row takes the next id.
\<close>

definition addRootElement :: "DataModule \<Rightarrow> string \<Rightarrow> error + DataModule" where
  "addRootElement dm name =
     (if name \<in> set (map e_class (elements dm)) then Inl IntegrityError
      else Inr (dm\<lparr>elements := elements dm @ [\<lparr>e_class = name, e_id = Suc (elements_seq dm)\<rparr>],
                   elements_seq := Suc (elements_seq dm)\<rparr>))"

text \<open>
  \<^verbatim>\<open>addRelatedElement\<close>: the table \<^verbatim>\<open>relations\<close> declares no constraint but its
  primary key (SQLite does not enforce \<^verbatim>\<open>FOREIGN KEY\<close> unless asked to, and the
  column may be NULL), so the INSERT always succeeds.
\<close>

definition addRelatedElement ::
  "DataModule \<Rightarrow> string \<Rightarrow> string \<Rightarrow> int \<Rightarrow> real \<Rightarrow> error + DataModule" where
  "addRelatedElement dm parent name count rating =
     (let parent_id = getRootElementId dm parent
      in Inr (dm\<lparr>relations := relations dm @
                     [\<lparr>r_class = name, r_id = Suc (relations_seq dm), r_count = count,
                       r_rating_sum = rating, r_rating_sum_squares = rating * rating,
                       r_parent_id = parent_id\<rparr>],
                   relations_seq := Suc (relations_seq dm)\<rparr>))"

text \<open>
  The SELECT of \<^verbatim>\<open>getChildId\<close>: the joined rows named \<open>child\<close>;
  \<^verbatim>\<open>fetchone()\<close> takes the first.
\<close>

definition pair_rows :: "DataModule \<Rightarrow> string \<Rightarrow> string \<Rightarrow> relation_row list" where
  "pair_rows dm parent child = filter (\<lambda>r. r_class r = child) (joined_rows dm parent)"

definition getChildId :: "DataModule \<Rightarrow> string \<Rightarrow> string \<Rightarrow> nat option" where
  "getChildId dm parent child =
     (case pair_rows dm parent child of
        r # _ \<Rightarrow> Some (r_id r)
      | [] \<Rightarrow> None)"

text \<open>
  The four UPDATE statements share \<^verbatim>\<open>WHERE id=(?) AND parent_id=(?)\<close>; with a
  \<^verbatim>\<open>None\<close> parameter the condition holds for no row and the statement changes nothing.
\<close>

definition update_where ::
  "nat option \<Rightarrow> nat option \<Rightarrow> (relation_row \<Rightarrow> relation_row) \<Rightarrow> DataModule \<Rightarrow> DataModule" where
  "update_where child_id parent_id f dm =
     dm\<lparr>relations :=
          map (\<lambda>r. if sql_eq (Some (r_id r)) child_id \<and> sql_eq (r_parent_id r) parent_id
                   then f r else r)
              (relations dm)\<rparr>"

definition updateChild ::
  "DataModule \<Rightarrow> string \<Rightarrow> string \<Rightarrow> int \<Rightarrow> real \<Rightarrow> error + DataModule" where
  "updateChild dm parent child count rating =
     (let parent_id = getRootElementId dm parent;
          child_id = getChildId dm parent child
      in Inr (update_where child_id parent_id
                (\<lambda>r. r\<lparr>r_count := count, r_rating_sum := rating,
                        r_rating_sum_squares := rating * rating\<rparr>) dm))"

definition updateChildCount ::
  "DataModule \<Rightarrow> string \<Rightarrow> string \<Rightarrow> int \<Rightarrow> error + DataModule" where
  "updateChildCount dm parent child increment =
     (let parent_id = getRootElementId dm parent;
          child_id = getChildId dm parent child
      in Inr (update_where child_id parent_id
                (\<lambda>r. r\<lparr>r_count := r_count r + increment\<rparr>) dm))"

definition updateChildRating ::
  "DataModule \<Rightarrow> string \<Rightarrow> string \<Rightarrow> real \<Rightarrow> error + DataModule" where
  "updateChildRating dm parent child rating =
     (let parent_id = getRootElementId dm parent;
          child_id = getChildId dm parent child
      in Inr (update_where child_id parent_id
                (\<lambda>r. r\<lparr>r_rating_sum := r_rating_sum r + rating,
                        r_rating_sum_squares := r_rating_sum_squares r + rating * rating\<rparr>) dm))"

definition incrementChild ::
  "DataModule \<Rightarrow> string \<Rightarrow> string \<Rightarrow> int \<Rightarrow> real \<Rightarrow> error + DataModule" where
  "incrementChild dm parent child increment rating =
     (let parent_id = getRootElementId dm parent;
          child_id = getChildId dm parent child
      in Inr (update_where child_id parent_id
                (\<lambda>r. r\<lparr>r_count := r_count r + increment,
                        r_rating_sum := r_rating_sum r + rating,
                        r_rating_sum_squares := r_rating_sum_squares r + rating * rating\<rparr>) dm))"

text \<open>
  The SELECT of \<^verbatim>\<open>computeRating\<close>: \<^verbatim>\<open>sum(rating_sum)/sum(count)\<close> over the
  joined rows. SQL's \<^verbatim>\<open>sum\<close> of no row is NULL, and so is a division by zero.
\<close>

definition select_rating :: "DataModule \<Rightarrow> string \<Rightarrow> real option" where
  "select_rating dm element =
     (let rows = joined_rows dm element
      in if rows = [] then None
         else if sum_list (map r_count rows) = 0 then None
         else Some (sum_list (map r_rating_sum rows) / real_of_int (sum_list (map r_count rows))))"

text \<open>
  \<^verbatim>\<open>computeRating\<close> executes that SELECT and ends, as \<^verbatim>\<open>existsChildElement\<close>
  does: the method returns \<^verbatim>\<open>None\<close>.
\<close>

definition computeRating :: "DataModule \<Rightarrow> string \<Rightarrow> real option" where
  "computeRating dm element = (let cursor = select_rating dm element in None)"

text \<open>
  \<^verbatim>\<open>commit\<close>: the open transaction is written to the file.
\<close>

definition commit :: "DataModule \<Rightarrow> DataModule" where
  "commit dm = dm\<lparr>committed := pending dm\<rparr>"

section \<open>MarkovRatingSystem\<close>

text \<open>
  A \<^verbatim>\<open>MarkovRatingSystem\<close> holds its datastore and nothing else; its methods are
  functions of the \<open>DataModule\<close>.
\<close>

definition isRootElement :: "DataModule \<Rightarrow> string \<Rightarrow> bool" where
  "isRootElement dm element = existsRootElement dm element"

definition addNewRootElement :: "DataModule \<Rightarrow> string \<Rightarrow> error + DataModule" where
  "addNewRootElement dm element = addRootElement dm element"

definition isChildOf :: "DataModule \<Rightarrow> string \<Rightarrow> string \<Rightarrow> bool" where
  "isChildOf dm element relatedElement =
     (let childlist = getChildren dm element;
          names = map fst childlist
      in relatedElement \<in> set names)"

definition mrs_addRelatedElement ::
  "DataModule \<Rightarrow> string \<Rightarrow> string \<Rightarrow> int \<Rightarrow> real \<Rightarrow> error + DataModule" where
  "mrs_addRelatedElement dm parent childName childCount childRating =
     addRelatedElement dm parent childName childCount childRating"

definition incrementRelatedElementCount ::
  "DataModule \<Rightarrow> string \<Rightarrow> string \<Rightarrow> int \<Rightarrow> error + DataModule" where
  "incrementRelatedElementCount dm parent childName increment =
     updateChildCount dm parent childName increment"

definition updateRelatedElementRating ::
  "DataModule \<Rightarrow> string \<Rightarrow> string \<Rightarrow> real \<Rightarrow> error + DataModule" where
  "updateRelatedElementRating dm parent childName rating =
     updateChildRating dm parent childName rating"

definition incrementRelatedBoth ::
  "DataModule \<Rightarrow> string \<Rightarrow> string \<Rightarrow> int \<Rightarrow> real \<Rightarrow> error + DataModule" where
  "incrementRelatedBoth dm parent childName increment rating =
     incrementChild dm parent childName increment rating"


text \<open>
  \<^verbatim>\<open>feedLine\<close>. \<open>feed_pair\<close> is the body of the inner loop, \<open>feed_inner\<close> the
  inner loop over the rest \<open>ys\<close> of the line for one \<open>x\<close>, \<open>feed_outer\<close> the outer loop
  over the rest \<open>xs\<close> of the line; an exception ends the loops.
\<close>

definition feed_pair :: "DataModule \<Rightarrow> real \<Rightarrow> string \<Rightarrow> string \<Rightarrow> error + DataModule" where
  "feed_pair dm rating x y =
     (if x \<noteq> y then
        (if \<not> isChildOf dm x y then mrs_addRelatedElement dm x y 1 rating
         else incrementRelatedBoth dm x y 1 rating)
      else Inr dm)"

fun feed_inner :: "DataModule \<Rightarrow> real \<Rightarrow> string \<Rightarrow> string list \<Rightarrow> error + DataModule" where
  "feed_inner dm rating x [] = Inr dm"
| "feed_inner dm rating x (y # ys) =
     (case feed_pair dm rating x y of
        Inl e \<Rightarrow> Inl e
      | Inr dm' \<Rightarrow> feed_inner dm' rating x ys)"

fun feed_outer ::
  "DataModule \<Rightarrow> real \<Rightarrow> string list \<Rightarrow> string list \<Rightarrow> error + DataModule" where
  "feed_outer dm rating relationList [] = Inr dm"
| "feed_outer dm rating relationList (x # xs) =
     (case (if \<not> isRootElement dm x then addNewRootElement dm x else Inr dm) of
        Inl e \<Rightarrow> Inl e
      | Inr dm1 \<Rightarrow>
          (case feed_inner dm1 rating x relationList of
             Inl e \<Rightarrow> Inl e
           | Inr dm2 \<Rightarrow> feed_outer dm2 rating relationList xs))"

definition feedLine :: "DataModule \<Rightarrow> real \<Rightarrow> string list \<Rightarrow> error + DataModule" where
  "feedLine dm rating relationList = feed_outer dm rating relationList relationList"

text \<open>
  Feeding the lines of a data set one after the other, as the loop of \<^verbatim>\<open>test1\<close> does.
\<close>

fun feedLines :: "DataModule \<Rightarrow> (real \<times> string list) list \<Rightarrow> error + DataModule" where
  "feedLines dm [] = Inr dm"
| "feedLines dm (line # lines) =
     (case feedLine dm (fst line) (snd line) of
        Inl e \<Rightarrow> Inl e
      | Inr dm' \<Rightarrow> feedLines dm' lines)"

section \<open>Sequences of method calls\<close>

text \<open>
  The calls a client can make on a \<^verbatim>\<open>DataModule\<close> and its
  \<^verbatim>\<open>MarkovRatingSystem\<close> once they are constructed. The methods that only read are
  left out: they return the datastore as it is.
\<close>

datatype call =
    AddRootElement string
  | AddRelatedElement string string int real
  | UpdateChild string string int real
  | UpdateChildCount string string int
  | UpdateChildRating string string real
  | IncrementChild string string int real
  | FeedLine real "string list"
  | Commit

fun run_call :: "DataModule \<Rightarrow> call \<Rightarrow> error + DataModule" where
  "run_call dm (AddRootElement name) = addRootElement dm name"
| "run_call dm (AddRelatedElement parent name count rating) =
     addRelatedElement dm parent name count rating"
| "run_call dm (UpdateChild parent child count rating) = updateChild dm parent child count rating"
| "run_call dm (UpdateChildCount parent child increment) =
     updateChildCount dm parent child increment"
| "run_call dm (UpdateChildRating parent child rating) = updateChildRating dm parent child rating"
| "run_call dm (IncrementChild parent child increment rating) =
     incrementChild dm parent child increment rating"
| "run_call dm (FeedLine rating relationList) = feedLine dm rating relationList"
| "run_call dm Commit = Inr (commit dm)"

fun run_calls :: "DataModule \<Rightarrow> call list \<Rightarrow> error + DataModule" where
  "run_calls dm [] = Inr dm"
| "run_calls dm (c # cs) =
     (case run_call dm c of
        Inl e \<Rightarrow> Inl e
      | Inr dm' \<Rightarrow> run_calls dm' cs)"

section \<open>Observations of the store\<close>

text \<open>
  The edge \<open>(parent, child)\<close> as a client reads it: the statistics of the rows of
  \<^verbatim>\<open>getChildren(parent)\<close> named \<open>child\<close>, in the order of the result.
\<close>

definition edge_rows :: "DataModule \<Rightarrow> string \<Rightarrow> string \<Rightarrow> (int \<times> real \<times> real) list" where
  "edge_rows dm parent child =
     map snd (filter (\<lambda>row. fst row = child) (getChildren dm parent))"

text \<open>
  What identifies a relation row for good: its name, its id and its parent. The statistics
  are what the UPDATE statements change.
\<close>

definition stats_of :: "relation_row \<Rightarrow> int \<times> real \<times> real" where
  "stats_of r = (r_count r, r_rating_sum r, r_rating_sum_squares r)"

definition row_key :: "relation_row \<Rightarrow> string \<times> nat \<times> nat option" where
  "row_key r = (r_class r, r_id r, r_parent_id r)"

text \<open>
  No row is lost from \<open>dm\<close> to \<open>dm'\<close>: the element rows and the keys of the
  relation rows of \<open>dm\<close> are still there, in place, and rows may have been added.
\<close>

definition keeps_rows :: "DataModule \<Rightarrow> DataModule \<Rightarrow> bool" where
  "keeps_rows dm dm' \<longleftrightarrow>
     prefix (elements dm) (elements dm') \<and>
     prefix (map row_key (relations dm)) (map row_key (relations dm'))"

text \<open>
  What the schema and the methods keep true of the tables: names and ids of
  \<^verbatim>\<open>elements\<close> are unique (\<^verbatim>\<open>UNIQUE\<close>, \<^verbatim>\<open>PRIMARY KEY\<close>), ids of
  \<^verbatim>\<open>relations\<close> are unique, no id is beyond its AUTOINCREMENT counter, and a
  \<^verbatim>\<open>parent_id\<close> that is not NULL was read from \<^verbatim>\<open>elements\<close>.
\<close>

definition store_ok :: "DataModule \<Rightarrow> bool" where
  "store_ok dm \<longleftrightarrow>
     distinct (map e_class (elements dm)) \<and>
     distinct (map e_id (elements dm)) \<and>
     list_all (\<lambda>e. e_id e \<le> elements_seq dm) (elements dm) \<and>
     distinct (map r_id (relations dm)) \<and>
     list_all (\<lambda>r. r_id r \<le> relations_seq dm) (relations dm) \<and>
     list_all (\<lambda>r. case r_parent_id r of None \<Rightarrow> True | Some p \<Rightarrow> p \<le> elements_seq dm)
       (relations dm)"

text \<open>
  The co-occurrences of \<open>x\<close> and \<open>y\<close> in one sequence, every occurrence counted: the
  pairs of positions of the line that hold \<open>x\<close> and \<open>y\<close>. Then the totals over the lines
  fed: the number of co-occurrences, and the ratings and squared ratings of the lines,
  once per co-occurrence.
\<close>

definition cooccur :: "string list \<Rightarrow> string \<Rightarrow> string \<Rightarrow> nat" where
  "cooccur items x y =
     length (filter (\<lambda>p. fst p = x \<and> snd p = y) (List.product items items))"

definition total_count :: "(real \<times> string list) list \<Rightarrow> string \<Rightarrow> string \<Rightarrow> nat" where
  "total_count lines x y = sum_list (map (\<lambda>line. cooccur (snd line) x y) lines)"

definition total_rating :: "(real \<times> string list) list \<Rightarrow> string \<Rightarrow> string \<Rightarrow> real" where
  "total_rating lines x y =
     sum_list (map (\<lambda>line. real (cooccur (snd line) x y) * fst line) lines)"

definition total_squares :: "(real \<times> string list) list \<Rightarrow> string \<Rightarrow> string \<Rightarrow> real" where
  "total_squares lines x y =
     sum_list (map (\<lambda>line. real (cooccur (snd line) x y) * (fst line * fst line)) lines)"

text \<open>
  One more observation of an edge, as \<^verbatim>\<open>feedLine\<close> records it: the first row of the
  edge takes it, and an edge without a row gets its first one.
\<close>

fun bump :: "real \<Rightarrow> (int \<times> real \<times> real) list \<Rightarrow> (int \<times> real \<times> real) list" where
  "bump rating [] = [(1, rating, rating * rating)]"
| "bump rating ((c, s, q) # rows) = (c + 1, s + rating, q + rating * rating) # rows"


section \<open>Lemmas\<close>

subsection \<open>Reading the join\<close>

lemma filter_class_find:
  "distinct (map e_class es) \<Longrightarrow>
   filter (\<lambda>e. e_class e = p) es = (case find (\<lambda>e. e_class e = p) es of None \<Rightarrow> [] | Some e \<Rightarrow> [e])"
proof (induction es)
  case Nil
  then show ?case by simp
next
  case (Cons a es)
  show ?case
  proof (cases "e_class a = p")
    case True
    with Cons.prems have "p \<notin> e_class ` set es" by auto
    then have "filter (\<lambda>e. e_class e = p) es = []"
      by (auto simp: filter_empty_conv)
    with True show ?thesis by simp
  next
    case False
    with Cons show ?thesis by simp
  qed
qed

lemma joined_rows_eq:
  "store_ok dm \<Longrightarrow>
   joined_rows dm p =
     (case getRootElementId dm p of None \<Rightarrow> []
      | Some pid \<Rightarrow> filter (\<lambda>r. r_parent_id r = Some pid) (relations dm))"
  by (simp add: joined_rows_def getRootElementId_def store_ok_def filter_class_find
           split: option.splits)

lemma pair_rows_eq:
  "store_ok dm \<Longrightarrow>
   pair_rows dm p c =
     (case getRootElementId dm p of None \<Rightarrow> []
      | Some pid \<Rightarrow> filter (\<lambda>r. r_parent_id r = Some pid \<and> r_class r = c) (relations dm))"
  by (auto simp: pair_rows_def joined_rows_eq split: option.splits intro: filter_cong)

lemma edge_rows_pair_rows: "edge_rows dm p c = map stats_of (pair_rows dm p c)"
  by (simp add: edge_rows_def pair_rows_def getChildren_def filter_map comp_def stats_of_def)

lemma isChildOf_edge_rows: "isChildOf dm x y \<longleftrightarrow> edge_rows dm x y \<noteq> []"
  by (auto simp: isChildOf_def edge_rows_def filter_empty_conv)

lemma getRootElementId_inj:
  assumes "store_ok dm" "getRootElementId dm p = Some i" "getRootElementId dm p' = Some i"
  shows "p = p'"
proof -
  from assms(2) obtain e where e: "find (\<lambda>e. e_class e = p) (elements dm) = Some e" "e_id e = i"
    by (auto simp: getRootElementId_def split: option.splits)
  from assms(3) obtain e' where e': "find (\<lambda>e. e_class e = p') (elements dm) = Some e'" "e_id e' = i"
    by (auto simp: getRootElementId_def split: option.splits)
  from e(1) have 1: "e \<in> set (elements dm)" "e_class e = p"
    by (auto simp: find_Some_iff)
  from e'(1) have 2: "e' \<in> set (elements dm)" "e_class e' = p'"
    by (auto simp: find_Some_iff)
  from assms(1) have "inj_on e_id (set (elements dm))"
    by (simp add: store_ok_def distinct_map)
  with 1 2 e(2) e'(2) have "e = e'" by (auto dest: inj_onD)
  with 1 2 show ?thesis by simp
qed

subsection \<open>The UPDATE statements\<close>


lemma update_where_elements [simp]:
  "elements (update_where ci pp f dm) = elements dm"
  "elements_seq (update_where ci pp f dm) = elements_seq dm"
  "relations_seq (update_where ci pp f dm) = relations_seq dm"
  "committed (update_where ci pp f dm) = committed dm"
  by (simp_all add: update_where_def)

lemma update_where_None [simp]: "update_where None pp f dm = dm" "update_where ci None f dm = dm"
  by (simp_all add: update_where_def)

lemma getRootElementId_update_where [simp]:
  "getRootElementId (update_where ci pp f dm) p = getRootElementId dm p"
  by (simp add: getRootElementId_def)

lemma row_key_eq:
  "row_key r' = row_key r \<longleftrightarrow> r_class r' = r_class r \<and> r_id r' = r_id r \<and> r_parent_id r' = r_parent_id r"
  by (auto simp: row_key_def)

lemma update_where_keys:
  assumes "\<And>r. row_key (f r) = row_key r"
  shows "map row_key (relations (update_where ci pp f dm)) = map row_key (relations dm)"
    and "map r_id (relations (update_where ci pp f dm)) = map r_id (relations dm)"
    and "map r_parent_id (relations (update_where ci pp f dm)) = map r_parent_id (relations dm)"
  using assms by (auto simp: update_where_def row_key_eq)

lemma list_all_via_map:
  assumes "map h rs' = map h rs"
  shows "list_all (\<lambda>r. Q (h r)) rs' = list_all (\<lambda>r. Q (h r)) rs"
proof -
  have "list_all (\<lambda>r. Q (h r)) rs' = list_all Q (map h rs')"
    by (simp add: list_all_iff)
  also have "\<dots> = list_all Q (map h rs)"
    by (simp only: assms)
  also have "\<dots> = list_all (\<lambda>r. Q (h r)) rs"
    by (simp add: list_all_iff)
  finally show ?thesis .
qed

lemma update_where_store_ok:
  assumes "\<And>r. row_key (f r) = row_key r" "store_ok dm"
  shows "store_ok (update_where ci pp f dm)"
proof -
  let ?dm' = "update_where ci pp f dm"
  have ids: "map r_id (relations ?dm') = map r_id (relations dm)"
    and ps: "map r_parent_id (relations ?dm') = map r_parent_id (relations dm)"
    using update_where_keys[OF assms(1)] by blast+
  have 1: "list_all (\<lambda>r. r_id r \<le> relations_seq dm) (relations ?dm')
         = list_all (\<lambda>r. r_id r \<le> relations_seq dm) (relations dm)"
    by (rule list_all_via_map[OF ids, of "\<lambda>i. i \<le> relations_seq dm"])
  have 2: "list_all (\<lambda>r. case r_parent_id r of None \<Rightarrow> True | Some p \<Rightarrow> p \<le> elements_seq dm) (relations ?dm')
         = list_all (\<lambda>r. case r_parent_id r of None \<Rightarrow> True | Some p \<Rightarrow> p \<le> elements_seq dm) (relations dm)"
    by (rule list_all_via_map[OF ps, of "\<lambda>q. case q of None \<Rightarrow> True | Some p \<Rightarrow> p \<le> elements_seq dm"])
  show ?thesis
    using assms(2) unfolding store_ok_def
    by (simp only: update_where_elements ids 1 2)
qed

lemma update_where_pair_rows_map:
  assumes "\<And>r. row_key (f r) = row_key r" "store_ok dm"
  shows "pair_rows (update_where ci pp f dm) p' c' =
         map (\<lambda>r. if sql_eq (Some (r_id r)) ci \<and> sql_eq (r_parent_id r) pp then f r else r)
             (pair_rows dm p' c')"
proof -
  let ?g = "\<lambda>r. if sql_eq (Some (r_id r)) ci \<and> sql_eq (r_parent_id r) pp then f r else r"
  have g: "r_parent_id (?g r) = r_parent_id r" "r_class (?g r) = r_class r" for r
    using assms(1) by (auto simp: row_key_eq)
  have rel: "relations (update_where ci pp f dm) = map ?g (relations dm)"
    by (simp add: update_where_def)
  have "filter (\<lambda>r. r_parent_id r = Some pid \<and> r_class r = c') (map ?g (relations dm))
      = map ?g (filter (\<lambda>r. r_parent_id r = Some pid \<and> r_class r = c') (relations dm))" for pid
    unfolding filter_map comp_def g ..
  then show ?thesis
    using update_where_store_ok[OF assms] assms(2)
    by (simp add: pair_rows_eq rel split: option.splits)
qed

lemma pair_rows_subset: "store_ok dm \<Longrightarrow> set (pair_rows dm p c) \<subseteq> set (relations dm)"
  by (auto simp: pair_rows_eq split: option.splits)

lemma pair_rows_distinct: "store_ok dm \<Longrightarrow> distinct (map r_id (pair_rows dm p c))"
  by (auto simp: pair_rows_eq store_ok_def distinct_map_filter split: option.splits)

lemma pair_rows_props:
  "store_ok dm \<Longrightarrow> r \<in> set (pair_rows dm p c) \<Longrightarrow>
   r \<in> set (relations dm) \<and> r_class r = c \<and> r_parent_id r = getRootElementId dm p \<and> getRootElementId dm p \<noteq> None"
proof -
  assume ok: "store_ok dm" and r: "r \<in> set (pair_rows dm p c)"
  show ?thesis
  proof (cases "getRootElementId dm p")
    case None
    with ok r show ?thesis by (simp add: pair_rows_eq)
  next
    case (Some pid)
    with ok r show ?thesis by (simp add: pair_rows_eq)
  qed
qed

lemma update_first_pair_rows:
  assumes f: "\<And>r. row_key (f r) = row_key r" and ok: "store_ok dm" and rows: "pair_rows dm p c = r0 # rest"
  shows "pair_rows (update_where (getChildId dm p c) (getRootElementId dm p) f dm) p' c' =
         (if p' = p \<and> c' = c then f r0 # rest else pair_rows dm p' c')"
proof -
  let ?ci = "getChildId dm p c" and ?pq = "getRootElementId dm p"
  let ?g = "\<lambda>r. if sql_eq (Some (r_id r)) ?ci \<and> sql_eq (r_parent_id r) ?pq then f r else r"
  have ci: "?ci = Some (r_id r0)" by (simp add: getChildId_def rows)
  have r0: "r0 \<in> set (relations dm)" "r_class r0 = c" "r_parent_id r0 = ?pq" "?pq \<noteq> None"
    using pair_rows_props[OF ok, of r0 p c] rows by auto
  then obtain pid where pid: "?pq = Some pid" by auto
  have inj: "inj_on r_id (set (relations dm))"
    using ok by (simp add: store_ok_def distinct_map)
  have g_r0: "?g r0 = f r0" using r0 pid ci by simp
  have g_other: "?g r = r" if "r \<in> set (relations dm)" "r \<noteq> r0" for r
    using that inj r0(1) ci by (auto dest: inj_onD)
  have map_eq: "pair_rows (update_where ?ci ?pq f dm) p' c' = map ?g (pair_rows dm p' c')"
    by (rule update_where_pair_rows_map[OF f ok])
  show ?thesis
  proof (cases "p' = p \<and> c' = c")
    case True
    have "distinct (map r_id (r0 # rest))" using pair_rows_distinct[OF ok, of p c] rows by simp
    then have "r0 \<notin> set rest" by auto
    moreover have "set rest \<subseteq> set (relations dm)" using pair_rows_subset[OF ok, of p c] rows by auto
    ultimately have "map ?g rest = rest"
      by (intro map_idI g_other) auto
    with True map_eq rows g_r0 show ?thesis by simp
  next
    case False
    have "r \<noteq> r0" if "r \<in> set (pair_rows dm p' c')" for r
    proof
      assume "r = r0"
      with pair_rows_props[OF ok that] r0 pid
      have "c' = c" "getRootElementId dm p' = Some pid" by auto
      with getRootElementId_inj[OF ok _ pid] False show False by auto
    qed
    then have "map ?g (pair_rows dm p' c') = pair_rows dm p' c'"
      using pair_rows_subset[OF ok, of p' c'] by (intro map_idI g_other) auto
    with map_eq have "pair_rows (update_where ?ci ?pq f dm) p' c' = pair_rows dm p' c'"
      by simp
    with False show ?thesis by auto
  qed
qed

subsection \<open>The INSERT statements\<close>

lemma find_append_if:
  "find P (xs @ ys) = (case find P xs of None \<Rightarrow> find P ys | Some x \<Rightarrow> Some x)"
  by (induction xs) auto

lemma addRelatedElement_ok:
  assumes ok: "store_ok dm"
  shows "\<exists>dm'. addRelatedElement dm p c n rt = Inr dm' \<and> store_ok dm' \<and>
           elements dm' = elements dm \<and> elements_seq dm' = elements_seq dm \<and>
           committed dm' = committed dm \<and>
           (\<forall>p' c'. pair_rows dm' p' c' =
              pair_rows dm p' c' @
              (if p' = p \<and> c' = c \<and> getRootElementId dm p \<noteq> None
               then [\<lparr>r_class = c, r_id = Suc (relations_seq dm), r_count = n,
                      r_rating_sum = rt, r_rating_sum_squares = rt * rt,
                      r_parent_id = getRootElementId dm p\<rparr>] else []))"
proof -
  let ?row = "\<lparr>r_class = c, r_id = Suc (relations_seq dm), r_count = n,
                r_rating_sum = rt, r_rating_sum_squares = rt * rt,
                r_parent_id = getRootElementId dm p\<rparr>"
  let ?dm' = "dm\<lparr>relations := relations dm @ [?row], relations_seq := Suc (relations_seq dm)\<rparr>"
  have eq: "addRelatedElement dm p c n rt = Inr ?dm'"
    by (simp add: addRelatedElement_def)
  have fresh: "Suc (relations_seq dm) \<notin> r_id ` set (relations dm)"
    using ok by (auto simp: store_ok_def list_all_iff)
  have pbound: "case getRootElementId dm p of None \<Rightarrow> True | Some q \<Rightarrow> q \<le> elements_seq dm"
    using ok by (auto simp: getRootElementId_def store_ok_def list_all_iff find_Some_iff
        split: option.splits)
  have ok': "store_ok ?dm'"
    using ok fresh pbound
    by (auto simp: store_ok_def list_all_iff split: option.splits)
  have gid: "getRootElementId (dm\<lparr>relations := rs, relations_seq := k\<rparr>) q = getRootElementId dm q" for q rs k
    by (simp add: getRootElementId_def)
  have rows: "pair_rows ?dm' p' c' = pair_rows dm p' c' @
       (if p' = p \<and> c' = c \<and> getRootElementId dm p \<noteq> None then [?row] else [])" for p' c'
  proof (cases "getRootElementId dm p'")
    case None
    then show ?thesis using ok ok' by (auto simp: pair_rows_eq gid)
  next
    case (Some pid')
    show ?thesis
    proof (cases "getRootElementId dm p = Some pid'")
      case True
      with Some have "p' = p" using getRootElementId_inj[OF ok] by blast
      with Some True show ?thesis using ok ok' by (auto simp: pair_rows_eq gid)
    next
      case False
      with Some have "p' \<noteq> p" by auto
      with Some False show ?thesis using ok ok' by (auto simp: pair_rows_eq gid)
    qed
  qed
  show ?thesis
    using eq ok' rows by simp
qed

lemma addRootElement_ok:
  assumes ok: "store_ok dm" and new: "\<not> existsRootElement dm x"
  shows "\<exists>dm'. addRootElement dm x = Inr dm' \<and> store_ok dm' \<and>
           elements dm' = elements dm @ [\<lparr>e_class = x, e_id = Suc (elements_seq dm)\<rparr>] \<and>
           relations dm' = relations dm \<and> committed dm' = committed dm \<and>
           (\<forall>p' c'. pair_rows dm' p' c' = pair_rows dm p' c')"
proof -
  let ?e = "\<lparr>e_class = x, e_id = Suc (elements_seq dm)\<rparr>"
  let ?dm' = "dm\<lparr>elements := elements dm @ [?e], elements_seq := Suc (elements_seq dm)\<rparr>"
  from new have notin: "x \<notin> e_class ` set (elements dm)"
    by (auto simp: existsRootElement_def find_None_iff)
  then have eq: "addRootElement dm x = Inr ?dm'"
    by (simp add: addRootElement_def)
  have fresh: "Suc (elements_seq dm) \<notin> e_id ` set (elements dm)"
    using ok by (auto simp: store_ok_def list_all_iff)
  have ok': "store_ok ?dm'"
    using ok fresh notin
    by (auto simp: store_ok_def list_all_iff split: option.splits)
  have nopar: "filter (\<lambda>r. r_parent_id r = Some (Suc (elements_seq dm)) \<and> r_class r = c') (relations dm) = []" for c'
    using ok by (auto simp: store_ok_def list_all_iff filter_empty_conv split: option.splits)
  have fx: "find (\<lambda>e. e_class e = x) (elements dm) = None"
    using notin by (auto simp: find_None_iff)
  have gx: "getRootElementId dm x = None"
    by (simp add: getRootElementId_def fx)
  have gid: "getRootElementId ?dm' q = (if q = x then Some (Suc (elements_seq dm)) else getRootElementId dm q)" for q
  proof (cases "q = x")
    case True
    then show ?thesis by (simp add: getRootElementId_def find_append_if fx)
  next
    case False
    then show ?thesis
      by (cases "find (\<lambda>e. e_class e = q) (elements dm)")
         (auto simp: getRootElementId_def find_append_if)
  qed
  have rows: "pair_rows ?dm' p' c' = pair_rows dm p' c'" for p' c'
    using ok ok' gx nopar by (auto simp: pair_rows_eq gid split: option.splits)
  show ?thesis
    using eq ok' rows by simp
qed

subsection \<open>One pass of the inner loop body\<close>

lemma registered_iff:
  "existsRootElement dm x \<longleftrightarrow> x \<in> e_class ` set (elements dm)"
  "getRootElementId dm x = None \<longleftrightarrow> x \<notin> e_class ` set (elements dm)"
  "isRootElement dm x \<longleftrightarrow> x \<in> e_class ` set (elements dm)"
proof -
  have f: "find (\<lambda>e. e_class e = x) (elements dm) = None \<longleftrightarrow> x \<notin> e_class ` set (elements dm)"
    by (auto simp: find_None_iff)
  show "existsRootElement dm x \<longleftrightarrow> x \<in> e_class ` set (elements dm)"
    using f by (simp add: existsRootElement_def)
  then show "isRootElement dm x \<longleftrightarrow> x \<in> e_class ` set (elements dm)"
    by (simp add: isRootElement_def)
  show "getRootElementId dm x = None \<longleftrightarrow> x \<notin> e_class ` set (elements dm)"
    using f by (cases "find (\<lambda>e. e_class e = x) (elements dm)") (simp_all add: getRootElementId_def)
qed

lemma stats_of_incr:
  "stats_of (r\<lparr>r_count := r_count r + 1, r_rating_sum := r_rating_sum r + rt,
               r_rating_sum_squares := r_rating_sum_squares r + rt * rt\<rparr>) # map stats_of rest
   = bump rt (stats_of r # map stats_of rest)"
  by (simp add: stats_of_def)

lemma incrementChild_ok:
  assumes ok: "store_ok dm" and rows: "pair_rows dm p c = r0 # rest"
  shows "\<exists>dm'. incrementChild dm p c n rt = Inr dm' \<and> store_ok dm' \<and>
           elements dm' = elements dm \<and> elements_seq dm' = elements_seq dm \<and>
           committed dm' = committed dm \<and>
           map row_key (relations dm') = map row_key (relations dm) \<and>
           (\<forall>p' c'. pair_rows dm' p' c' =
              (if p' = p \<and> c' = c
               then r0\<lparr>r_count := r_count r0 + n, r_rating_sum := r_rating_sum r0 + rt,
                       r_rating_sum_squares := r_rating_sum_squares r0 + rt * rt\<rparr> # rest
               else pair_rows dm p' c'))"
proof -
  let ?f = "\<lambda>r. r\<lparr>r_count := r_count r + n, r_rating_sum := r_rating_sum r + rt,
                   r_rating_sum_squares := r_rating_sum_squares r + rt * rt\<rparr>"
  let ?dm' = "update_where (getChildId dm p c) (getRootElementId dm p) ?f dm"
  have f: "row_key (?f r) = row_key r" for r by (simp add: row_key_def)
  have eq: "incrementChild dm p c n rt = Inr ?dm'" by (simp add: incrementChild_def)
  show ?thesis
    using eq update_where_store_ok[OF f ok] update_first_pair_rows[OF f ok rows]
      update_where_keys(1)[of ?f, OF f]
    by simp
qed

lemma feed_pair_ok:
  assumes ok: "store_ok dm" and reg: "x \<in> e_class ` set (elements dm)" and neq: "x \<noteq> y"
  shows "\<exists>dm'. feed_pair dm rt x y = Inr dm' \<and> store_ok dm' \<and>
           elements dm' = elements dm \<and>
           (\<forall>p c. edge_rows dm' p c =
              (if p = x \<and> c = y then bump rt (edge_rows dm x y) else edge_rows dm p c))"
proof (cases "pair_rows dm x y")
  case Nil
  then have nochild: "\<not> isChildOf dm x y"
    by (simp add: isChildOf_edge_rows edge_rows_pair_rows)
  from reg have g: "getRootElementId dm x \<noteq> None" by (simp only: registered_iff) simp
  from addRelatedElement_ok[OF ok, of x y 1 rt] obtain dm' where
    dm': "addRelatedElement dm x y 1 rt = Inr dm'" "store_ok dm'" "elements dm' = elements dm"
    and rows: "\<And>p' c'. pair_rows dm' p' c' =
              pair_rows dm p' c' @
              (if p' = x \<and> c' = y \<and> getRootElementId dm x \<noteq> None
               then [\<lparr>r_class = y, r_id = Suc (relations_seq dm), r_count = 1,
                      r_rating_sum = rt, r_rating_sum_squares = rt * rt,
                      r_parent_id = getRootElementId dm x\<rparr>] else [])"
    by blast
  have "feed_pair dm rt x y = Inr dm'"
    using neq nochild dm'(1) by (simp add: feed_pair_def mrs_addRelatedElement_def)
  moreover have "edge_rows dm' p c =
      (if p = x \<and> c = y then bump rt (edge_rows dm x y) else edge_rows dm p c)" for p c
    using g Nil by (simp add: edge_rows_pair_rows rows stats_of_def)
  ultimately show ?thesis using dm'(2,3) by blast
next
  case (Cons r0 rest)
  then have child: "isChildOf dm x y"
    by (simp add: isChildOf_edge_rows edge_rows_pair_rows)
  from incrementChild_ok[OF ok Cons, of 1 rt] obtain dm' where
    dm': "incrementChild dm x y 1 rt = Inr dm'" "store_ok dm'" "elements dm' = elements dm"
    and rows: "\<And>p' c'. pair_rows dm' p' c' =
              (if p' = x \<and> c' = y
               then r0\<lparr>r_count := r_count r0 + 1, r_rating_sum := r_rating_sum r0 + rt,
                       r_rating_sum_squares := r_rating_sum_squares r0 + rt * rt\<rparr> # rest
               else pair_rows dm p' c')"
    by blast
  have "feed_pair dm rt x y = Inr dm'"
    using neq child dm'(1) by (simp add: feed_pair_def incrementRelatedBoth_def)
  moreover have "edge_rows dm' p c =
      (if p = x \<and> c = y then bump rt (edge_rows dm x y) else edge_rows dm p c)" for p c
    using Cons by (simp add: edge_rows_pair_rows rows stats_of_incr)
  ultimately show ?thesis using dm'(2,3) by blast
qed

subsection \<open>The loops of feedLine\<close>

lemma funpow_apply_add: "(f ^^ m) ((f ^^ n) z) = (f ^^ (m + n)) z"
  by (simp add: funpow_add)

lemma length_filter_eq_count: "length (filter (\<lambda>b. b = y) ys) = count_list ys y"
  by (induction ys) auto

lemma feed_inner_ok:
  assumes "store_ok dm" "x \<in> e_class ` set (elements dm)"
  shows "\<exists>dm'. feed_inner dm rt x ys = Inr dm' \<and> store_ok dm' \<and>
           elements dm' = elements dm \<and>
           (\<forall>p c. edge_rows dm' p c =
              (bump rt ^^ (if p = x \<and> c \<noteq> x then count_list ys c else 0)) (edge_rows dm p c))"
  using assms
proof (induction ys arbitrary: dm)
  case Nil
  then show ?case by simp
next
  case (Cons y ys)
  show ?case
  proof (cases "x = y")
    case True
    then have fp: "feed_pair dm rt x y = Inr dm" by (simp add: feed_pair_def)
    from Cons.IH[OF Cons.prems] obtain dm' where
      dm': "feed_inner dm rt x ys = Inr dm'" "store_ok dm'" "elements dm' = elements dm"
      and rows: "\<And>p c. edge_rows dm' p c =
              (bump rt ^^ (if p = x \<and> c \<noteq> x then count_list ys c else 0)) (edge_rows dm p c)"
      by blast
    have "feed_inner dm rt x (y # ys) = Inr dm'" using fp dm'(1) by simp
    moreover have "edge_rows dm' p c =
        (bump rt ^^ (if p = x \<and> c \<noteq> x then count_list (y # ys) c else 0)) (edge_rows dm p c)" for p c
      using True by (simp add: rows)
    ultimately show ?thesis using dm'(2,3) by blast
  next
    case False
    from feed_pair_ok[OF Cons.prems False, of rt] obtain dm1 where
      dm1: "feed_pair dm rt x y = Inr dm1" "store_ok dm1" "elements dm1 = elements dm"
      and rows1: "\<And>p c. edge_rows dm1 p c =
              (if p = x \<and> c = y then bump rt (edge_rows dm x y) else edge_rows dm p c)"
      by blast
    from Cons.prems(2) dm1(3) have reg1: "x \<in> e_class ` set (elements dm1)" by simp
    from Cons.IH[OF dm1(2) reg1] obtain dm' where
      dm': "feed_inner dm1 rt x ys = Inr dm'" "store_ok dm'" "elements dm' = elements dm1"
      and rows: "\<And>p c. edge_rows dm' p c =
              (bump rt ^^ (if p = x \<and> c \<noteq> x then count_list ys c else 0)) (edge_rows dm1 p c)"
      by blast
    have "feed_inner dm rt x (y # ys) = Inr dm'" using dm1(1) dm'(1) by simp
    moreover have "edge_rows dm' p c =
        (bump rt ^^ (if p = x \<and> c \<noteq> x then count_list (y # ys) c else 0)) (edge_rows dm p c)" for p c
      using False by (auto simp: rows rows1 funpow_swap1)
    ultimately show ?thesis using dm'(2,3) dm1(3) by auto
  qed
qed

lemma feed_outer_ok:
  assumes "store_ok dm"
  shows "\<exists>dm'. feed_outer dm rt items xs = Inr dm' \<and> store_ok dm' \<and>
           e_class ` set (elements dm') = e_class ` set (elements dm) \<union> set xs \<and>
           (\<forall>p c. edge_rows dm' p c =
              (bump rt ^^ (if p \<noteq> c then count_list xs p * count_list items c else 0))
                (edge_rows dm p c))"
  using assms
proof (induction xs arbitrary: dm)
  case Nil
  then show ?case by simp
next
  case (Cons x xs)
  have "\<exists>dm1. (if \<not> isRootElement dm x then addNewRootElement dm x else Inr dm) = Inr dm1 \<and>
          store_ok dm1 \<and> e_class ` set (elements dm1) = insert x (e_class ` set (elements dm)) \<and>
          (\<forall>p c. edge_rows dm1 p c = edge_rows dm p c)"
  proof (cases "isRootElement dm x")
    case True
    with Cons.prems show ?thesis by (auto simp: registered_iff)
  next
    case False
    then have "\<not> existsRootElement dm x" by (simp add: isRootElement_def)
    from addRootElement_ok[OF Cons.prems this] False show ?thesis
      by (auto simp: addNewRootElement_def edge_rows_pair_rows)
  qed
  then obtain dm1 where
    dm1: "(if \<not> isRootElement dm x then addNewRootElement dm x else Inr dm) = Inr dm1"
      "store_ok dm1" "e_class ` set (elements dm1) = insert x (e_class ` set (elements dm))"
    and rows1: "\<And>p c. edge_rows dm1 p c = edge_rows dm p c"
    by blast
  from dm1(3) have reg: "x \<in> e_class ` set (elements dm1)" by simp
  from feed_inner_ok[OF dm1(2) reg, of rt items] obtain dm2 where
    dm2: "feed_inner dm1 rt x items = Inr dm2" "store_ok dm2" "elements dm2 = elements dm1"
    and rows2: "\<And>p c. edge_rows dm2 p c =
              (bump rt ^^ (if p = x \<and> c \<noteq> x then count_list items c else 0)) (edge_rows dm1 p c)"
    by blast
  from Cons.IH[OF dm2(2)] obtain dm' where
    dm': "feed_outer dm2 rt items xs = Inr dm'" "store_ok dm'"
      "e_class ` set (elements dm') = e_class ` set (elements dm2) \<union> set xs"
    and rows: "\<And>p c. edge_rows dm' p c =
              (bump rt ^^ (if p \<noteq> c then count_list xs p * count_list items c else 0))
                (edge_rows dm2 p c)"
    by blast
  have "feed_outer dm rt items (x # xs) = Inr dm'"
    using dm1(1) dm2(1) dm'(1) by simp
  moreover have "e_class ` set (elements dm') = e_class ` set (elements dm) \<union> set (x # xs)"
    using dm'(3) dm2(3) dm1(3) by auto
  moreover have "edge_rows dm' p c =
      (bump rt ^^ (if p \<noteq> c then count_list (x # xs) p * count_list items c else 0))
        (edge_rows dm p c)" for p c
    by (simp add: rows rows2 rows1 funpow_apply_add add.commute)
  ultimately show ?case using dm'(2) by blast
qed

lemma cooccur_count: "cooccur items x y = count_list items x * count_list items y"
proof -
  have "length (filter (\<lambda>p. fst p = x \<and> snd p = y) (List.product xs ys))
      = count_list xs x * count_list ys y" for xs ys :: "string list"
  proof (induction xs)
    case Nil
    then show ?case by simp
  next
    case (Cons a xs)
    have "length (filter (\<lambda>p. fst p = x \<and> snd p = y) (map (Pair a) ys))
        = (if a = x then count_list ys y else 0)"
      by (simp add: filter_map comp_def length_filter_eq_count)
    with Cons show ?case by simp
  qed
  then show ?thesis by (simp add: cooccur_def)
qed

lemma feedLine_ok:
  assumes "store_ok dm"
  shows "\<exists>dm'. feedLine dm rt items = Inr dm' \<and> store_ok dm' \<and>
           e_class ` set (elements dm') = e_class ` set (elements dm) \<union> set items \<and>
           (\<forall>p c. edge_rows dm' p c =
              (bump rt ^^ (if p \<noteq> c then cooccur items p c else 0)) (edge_rows dm p c))"
  unfolding feedLine_def cooccur_count
  by (rule feed_outer_ok[OF assms])

subsection \<open>No row is lost\<close>

lemma keeps_rows_refl [simp]: "keeps_rows dm dm"
  by (simp add: keeps_rows_def)

lemma keeps_rows_trans: "keeps_rows a b \<Longrightarrow> keeps_rows b c \<Longrightarrow> keeps_rows a c"
  by (auto simp: keeps_rows_def)

lemma update_where_keeps:
  assumes "\<And>r. row_key (f r) = row_key r"
  shows "keeps_rows dm (update_where ci pp f dm)"
  using update_where_keys(1)[of f ci pp dm, OF assms]
  by (simp add: keeps_rows_def)

lemma addRootElement_keeps:
  "addRootElement dm x = Inr dm' \<Longrightarrow> keeps_rows dm dm' \<and> committed dm' = committed dm"
  by (auto simp: addRootElement_def keeps_rows_def split: if_splits)

lemma addRelatedElement_keeps:
  "addRelatedElement dm p c n rt = Inr dm' \<Longrightarrow> keeps_rows dm dm' \<and> committed dm' = committed dm"
  by (auto simp: addRelatedElement_def keeps_rows_def)

lemma updateChild_keeps:
  "updateChild dm p c n rt = Inr dm' \<Longrightarrow> keeps_rows dm dm' \<and> committed dm' = committed dm"
  by (auto simp: updateChild_def row_key_def intro!: update_where_keeps)

lemma updateChildCount_keeps:
  "updateChildCount dm p c n = Inr dm' \<Longrightarrow> keeps_rows dm dm' \<and> committed dm' = committed dm"
  by (auto simp: updateChildCount_def row_key_def intro!: update_where_keeps)

lemma updateChildRating_keeps:
  "updateChildRating dm p c rt = Inr dm' \<Longrightarrow> keeps_rows dm dm' \<and> committed dm' = committed dm"
  by (auto simp: updateChildRating_def row_key_def intro!: update_where_keeps)

lemma incrementChild_keeps:
  "incrementChild dm p c n rt = Inr dm' \<Longrightarrow> keeps_rows dm dm' \<and> committed dm' = committed dm"
  by (auto simp: incrementChild_def row_key_def intro!: update_where_keeps)

lemma feed_pair_keeps:
  "feed_pair dm rt x y = Inr dm' \<Longrightarrow> keeps_rows dm dm' \<and> committed dm' = committed dm"
  by (auto simp: feed_pair_def mrs_addRelatedElement_def incrementRelatedBoth_def
      split: if_splits dest: addRelatedElement_keeps incrementChild_keeps)

lemma feed_inner_keeps:
  "feed_inner dm rt x ys = Inr dm' \<Longrightarrow> keeps_rows dm dm' \<and> committed dm' = committed dm"
proof (induction ys arbitrary: dm)
  case Nil
  then show ?case by simp
next
  case (Cons y ys)
  from Cons.prems obtain dm1 where 1: "feed_pair dm rt x y = Inr dm1"
    and 2: "feed_inner dm1 rt x ys = Inr dm'"
    by (auto split: sum.splits)
  from feed_pair_keeps[OF 1] Cons.IH[OF 2] show ?case
    by (auto intro: keeps_rows_trans)
qed

lemma feed_outer_keeps:
  "feed_outer dm rt items xs = Inr dm' \<Longrightarrow> keeps_rows dm dm' \<and> committed dm' = committed dm"
proof (induction xs arbitrary: dm)
  case Nil
  then show ?case by simp
next
  case (Cons x xs)
  from Cons.prems obtain dm1 dm2 where
    1: "(if \<not> isRootElement dm x then addNewRootElement dm x else Inr dm) = Inr dm1"
    and 2: "feed_inner dm1 rt x items = Inr dm2"
    and 3: "feed_outer dm2 rt items xs = Inr dm'"
    by (auto split: sum.splits if_splits)
  from 1 have "keeps_rows dm dm1 \<and> committed dm1 = committed dm"
    by (auto simp: addNewRootElement_def split: if_splits dest: addRootElement_keeps)
  with feed_inner_keeps[OF 2] Cons.IH[OF 3] show ?case
    by (auto intro: keeps_rows_trans)
qed

lemma feedLine_keeps:
  "feedLine dm rt items = Inr dm' \<Longrightarrow> keeps_rows dm dm' \<and> committed dm' = committed dm"
  unfolding feedLine_def by (rule feed_outer_keeps)


lemma commit_keeps: "keeps_rows dm (commit dm)"
  by (simp add: commit_def keeps_rows_def)

lemma run_call_keeps: "run_call dm c = Inr dm' \<Longrightarrow> keeps_rows dm dm'"
proof (cases c)
  case (AddRootElement x)
  then show "run_call dm c = Inr dm' \<Longrightarrow> keeps_rows dm dm'"
    using addRootElement_keeps by auto
next
  case (AddRelatedElement p ch n rt)
  then show "run_call dm c = Inr dm' \<Longrightarrow> keeps_rows dm dm'"
    using addRelatedElement_keeps by auto
next
  case (UpdateChild p ch n rt)
  then show "run_call dm c = Inr dm' \<Longrightarrow> keeps_rows dm dm'"
    using updateChild_keeps by auto
next
  case (UpdateChildCount p ch n)
  then show "run_call dm c = Inr dm' \<Longrightarrow> keeps_rows dm dm'"
    using updateChildCount_keeps by auto
next
  case (UpdateChildRating p ch rt)
  then show "run_call dm c = Inr dm' \<Longrightarrow> keeps_rows dm dm'"
    using updateChildRating_keeps by auto
next
  case (IncrementChild p ch n rt)
  then show "run_call dm c = Inr dm' \<Longrightarrow> keeps_rows dm dm'"
    using incrementChild_keeps by auto
next
  case (FeedLine rt items)
  then show "run_call dm c = Inr dm' \<Longrightarrow> keeps_rows dm dm'"
    using feedLine_keeps by auto
next
  case Commit
  then show "run_call dm c = Inr dm' \<Longrightarrow> keeps_rows dm dm'"
    using commit_keeps by auto
qed

lemma run_calls_keeps: "run_calls dm cs = Inr dm' \<Longrightarrow> keeps_rows dm dm'"
proof (induction cs arbitrary: dm)
  case Nil
  then show ?case by simp
next
  case (Cons c cs)
  from Cons.prems obtain dm1 where 1: "run_call dm c = Inr dm1"
    and 2: "run_calls dm1 cs = Inr dm'"
    by (auto split: sum.splits)
  from run_call_keeps[OF 1] Cons.IH[OF 2] show ?case
    by (rule keeps_rows_trans)
qed

subsection \<open>The statistics after feeding\<close>

lemma store_ok_init: "store_ok (DataModule_init database)"
  by (simp add: DataModule_init_def create_tables_def store_ok_def)

lemma edge_rows_init: "edge_rows (DataModule_init database) p c = []"
  by (simp add: DataModule_init_def create_tables_def edge_rows_def getChildren_def joined_rows_def)

lemma bump_funpow_Cons:
  "(bump rt ^^ n) ((c, s, q) # rest) = (c + int n, s + real n * rt, q + real n * (rt * rt)) # rest"
  by (induction n arbitrary: c s q) (simp_all add: funpow_swap1 algebra_simps)

lemma bump_funpow_Nil:
  "(bump rt ^^ n) [] = (if n = 0 then [] else [(int n, real n * rt, real n * (rt * rt))])"
proof (cases n)
  case 0
  then show ?thesis by simp
next
  case (Suc m)
  have "(bump rt ^^ Suc m) [] = (bump rt ^^ m) (bump rt [])"
    by (simp only: funpow_Suc_right comp_def)
  then show ?thesis using Suc by (simp add: bump_funpow_Cons algebra_simps)
qed

lemma bump_funpow_nonempty: "rows \<noteq> [] \<Longrightarrow> (bump rt ^^ n) rows \<noteq> []"
  by (cases rows) (auto simp: bump_funpow_Cons)

lemma feedLines_ok:
  assumes "store_ok dm"
  shows "\<exists>dm'. feedLines dm lines = Inr dm' \<and> store_ok dm' \<and>
           (\<forall>p c. edge_rows dm' p c =
              fold (\<lambda>line. bump (fst line) ^^ (if p \<noteq> c then cooccur (snd line) p c else 0))
                lines (edge_rows dm p c))"
  using assms
proof (induction lines arbitrary: dm)
  case Nil
  then show ?case by simp
next
  case (Cons l lines)
  from feedLine_ok[OF Cons.prems, of "fst l" "snd l"] obtain dm1 where
    dm1: "feedLine dm (fst l) (snd l) = Inr dm1" "store_ok dm1"
    and rows1: "\<And>p c. edge_rows dm1 p c =
              (bump (fst l) ^^ (if p \<noteq> c then cooccur (snd l) p c else 0)) (edge_rows dm p c)"
    by blast
  from Cons.IH[OF dm1(2)] obtain dm' where
    dm': "feedLines dm1 lines = Inr dm'" "store_ok dm'"
    and rows: "\<And>p c. edge_rows dm' p c =
              fold (\<lambda>line. bump (fst line) ^^ (if p \<noteq> c then cooccur (snd line) p c else 0))
                lines (edge_rows dm1 p c)"
    by blast
  have "feedLines dm (l # lines) = Inr dm'" using dm1(1) dm'(1) by simp
  moreover have "edge_rows dm' p c =
      fold (\<lambda>line. bump (fst line) ^^ (if p \<noteq> c then cooccur (snd line) p c else 0))
        (l # lines) (edge_rows dm p c)" for p c
    by (simp add: rows rows1)
  ultimately show ?case using dm'(2) by blast
qed

lemma fold_bump_Cons:
  "fold (\<lambda>line. bump (fst line) ^^ cooccur (snd line) x y) lines ((c, s, q) # rest) =
   (c + int (total_count lines x y), s + total_rating lines x y, q + total_squares lines x y) # rest"
  by (induction lines arbitrary: c s q)
     (simp_all add: total_count_def total_rating_def total_squares_def bump_funpow_Cons algebra_simps)

lemma fold_bump_Nil:
  "fold (\<lambda>line. bump (fst line) ^^ cooccur (snd line) x y) lines [] =
   (if total_count lines x y = 0 then []
    else [(int (total_count lines x y), total_rating lines x y, total_squares lines x y)])"
proof (induction lines)
  case Nil
  then show ?case by (simp add: total_count_def)
next
  case (Cons l lines)
  show ?case
  proof (cases "cooccur (snd l) x y = 0")
    case True
    with Cons show ?thesis
      by (simp add: total_count_def total_rating_def total_squares_def)
  next
    case False
    then show ?thesis
      by (simp add: bump_funpow_Nil fold_bump_Cons)
         (simp add: total_count_def total_rating_def total_squares_def)
  qed
qed

lemma feedLines_closed_form:
  "\<exists>dm. feedLines (DataModule_init database) lines = Inr dm \<and> store_ok dm \<and>
     (\<forall>p. edge_rows dm p p = []) \<and>
     (\<forall>p c. p \<noteq> c \<longrightarrow> edge_rows dm p c =
        (if total_count lines p c = 0 then []
         else [(int (total_count lines p c), total_rating lines p c, total_squares lines p c)]))"
proof -
  from feedLines_ok[OF store_ok_init, of database lines] obtain dm where
    dm: "feedLines (DataModule_init database) lines = Inr dm" "store_ok dm"
    and rows: "\<And>p c. edge_rows dm p c =
              fold (\<lambda>line. bump (fst line) ^^ (if p \<noteq> c then cooccur (snd line) p c else 0))
                lines []"
    by (auto simp: edge_rows_init)
  have "fold (\<lambda>line. bump (fst line) ^^ 0) lines rs = rs" for rs :: "(int \<times> real \<times> real) list"
    by (induction lines) simp_all
  then have self: "edge_rows dm p p = []" for p
    by (simp add: rows)
  have other: "edge_rows dm p c =
        (if total_count lines p c = 0 then []
         else [(int (total_count lines p c), total_rating lines p c, total_squares lines p c)])"
    if "p \<noteq> c" for p c
    using that by (simp add: rows fold_bump_Nil)
  from dm self other show ?thesis by blast
qed

subsection \<open>Feeding a line again\<close>

lemma bump_nonempty [simp]: "bump rt rows \<noteq> []"
  by (cases "(rt, rows)" rule: bump.cases) simp_all

lemma feed_pair_replay:
  assumes ok: "store_ok dm" and rows: "edge_rows dm x y \<noteq> []"
    and fp: "feed_pair dm rt x y = Inr dm'"
  shows "map row_key (relations dm') = map row_key (relations dm)"
proof (cases "x = y")
  case True
  with fp show ?thesis by (simp add: feed_pair_def)
next
  case False
  from rows obtain r0 rest where pr: "pair_rows dm x y = r0 # rest"
    by (cases "pair_rows dm x y") (auto simp: edge_rows_pair_rows)
  from rows have "isChildOf dm x y" by (simp add: isChildOf_edge_rows)
  with False fp have "incrementChild dm x y 1 rt = Inr dm'"
    by (simp add: feed_pair_def incrementRelatedBoth_def)
  with incrementChild_ok[OF ok pr, of 1 rt] show ?thesis by auto
qed

lemma feed_inner_replay:
  assumes "store_ok dm" "x \<in> e_class ` set (elements dm)"
    and "\<forall>c\<in>set ys. x \<noteq> c \<longrightarrow> edge_rows dm x c \<noteq> []"
    and "feed_inner dm rt x ys = Inr dm'"
  shows "map row_key (relations dm') = map row_key (relations dm)"
  using assms
proof (induction ys arbitrary: dm)
  case Nil
  then show ?case by simp
next
  case (Cons y ys)
  from Cons.prems(4) obtain dm1 where 1: "feed_pair dm rt x y = Inr dm1"
    and 2: "feed_inner dm1 rt x ys = Inr dm'"
    by (auto split: sum.splits)
  show ?case
  proof (cases "x = y")
    case True
    with 1 have "dm1 = dm" by (simp add: feed_pair_def)
    with Cons.IH[of dm] Cons.prems 2 show ?thesis by simp
  next
    case False
    with Cons.prems(3) have rows: "edge_rows dm x y \<noteq> []" by simp
    from feed_pair_ok[OF Cons.prems(1,2) False, of rt] 1 have
      ok1: "store_ok dm1" and el1: "elements dm1 = elements dm"
      and rows1: "\<And>p c. edge_rows dm1 p c =
              (if p = x \<and> c = y then bump rt (edge_rows dm x y) else edge_rows dm p c)"
      by auto
    have "\<forall>c\<in>set ys. x \<noteq> c \<longrightarrow> edge_rows dm1 x c \<noteq> []"
      using Cons.prems(3) by (simp add: rows1)
    from Cons.IH[OF ok1 _ this 2] Cons.prems(2) el1
    have "map row_key (relations dm') = map row_key (relations dm1)" by simp
    with feed_pair_replay[OF Cons.prems(1) rows 1] show ?thesis by simp
  qed
qed

lemma feed_outer_replay:
  assumes "store_ok dm" "set xs \<subseteq> e_class ` set (elements dm)"
    and "\<forall>p\<in>set xs. \<forall>c\<in>set items. p \<noteq> c \<longrightarrow> edge_rows dm p c \<noteq> []"
    and "feed_outer dm rt items xs = Inr dm'"
  shows "elements dm' = elements dm \<and> map row_key (relations dm') = map row_key (relations dm)"
  using assms
proof (induction xs arbitrary: dm)
  case Nil
  then show ?case by simp
next
  case (Cons x xs)
  from Cons.prems(2) have reg: "x \<in> e_class ` set (elements dm)" by simp
  then have "isRootElement dm x" by (simp add: registered_iff)
  with Cons.prems(4) obtain dm2 where 2: "feed_inner dm rt x items = Inr dm2"
    and 3: "feed_outer dm2 rt items xs = Inr dm'"
    by (auto split: sum.splits)
  from feed_inner_ok[OF Cons.prems(1) reg, of rt items] 2 have
    ok2: "store_ok dm2" and el2: "elements dm2 = elements dm"
    and rows2: "\<And>p c. edge_rows dm2 p c =
              (bump rt ^^ (if p = x \<and> c \<noteq> x then count_list items c else 0)) (edge_rows dm p c)"
    by auto
  from Cons.prems(3) have "\<forall>c\<in>set items. x \<noteq> c \<longrightarrow> edge_rows dm x c \<noteq> []" by simp
  from feed_inner_replay[OF Cons.prems(1) reg this 2]
  have keys2: "map row_key (relations dm2) = map row_key (relations dm)" .
  have "\<forall>p\<in>set xs. \<forall>c\<in>set items. p \<noteq> c \<longrightarrow> edge_rows dm2 p c \<noteq> []"
    using Cons.prems(3) by (simp add: rows2 bump_funpow_nonempty)
  from Cons.IH[OF ok2 _ this 3] Cons.prems(2) el2 keys2 show ?case by simp
qed


lemma cooccur_pos: "x \<in> set items \<Longrightarrow> y \<in> set items \<Longrightarrow> 0 < cooccur items x y"
proof -
  assume "x \<in> set items" "y \<in> set items"
  then have "count_list items x \<noteq> 0" "count_list items y \<noteq> 0"
    by (simp_all add: count_list_0_iff)
  then show ?thesis by (simp add: cooccur_count)
qed

lemma feedLine_replay_rows:
  assumes ok: "store_ok dm" and f1: "feedLine dm rt items = Inr dm1"
    and f2: "feedLine dm1 rt items = Inr dm2"
  shows "elements dm2 = elements dm1 \<and> map row_key (relations dm2) = map row_key (relations dm1)"
proof -
  from feedLine_ok[OF ok, of rt items] f1 have
    ok1: "store_ok dm1" and reg: "e_class ` set (elements dm1) = e_class ` set (elements dm) \<union> set items"
    and rows1: "\<And>p c. edge_rows dm1 p c =
              (bump rt ^^ (if p \<noteq> c then cooccur items p c else 0)) (edge_rows dm p c)"
    by auto
  have "edge_rows dm1 p c \<noteq> []" if "p \<in> set items" "c \<in> set items" "p \<noteq> c" for p c
  proof -
    from cooccur_pos[OF that(1,2)] obtain k where k: "cooccur items p c = Suc k"
      by (cases "cooccur items p c") auto
    show ?thesis using that(3) by (simp add: rows1 k)
  qed
  then have "\<forall>p\<in>set items. \<forall>c\<in>set items. p \<noteq> c \<longrightarrow> edge_rows dm1 p c \<noteq> []" by blast
  from feed_outer_replay[OF ok1 _ this, of rt dm2] reg f2 show ?thesis
    by (simp add: feedLine_def)
qed

lemma feedLines_append:
  "feedLines dm (lines @ lines') =
     (case feedLines dm lines of Inl e \<Rightarrow> Inl e | Inr dm' \<Rightarrow> feedLines dm' lines')"
  by (induction lines arbitrary: dm) (auto split: sum.splits)

subsection \<open>Edges as a client reads them\<close>

lemma existsChildElement_example:
  "(case feedLine (DataModule_init empty_database) 1 [''a'', ''b''] of
      Inl e \<Rightarrow> False
    | Inr dm \<Rightarrow>
        isChildOf dm ''a'' ''b'' \<and>
        select_child dm ''b'' (getRootElementId dm ''a'') \<noteq> [] \<and>
        existsChildElement dm ''a'' ''b'' = None)"
  by code_simp



lemma fed_example:
  "\<exists>dm. feedLines (DataModule_init empty_database) [(1, [''a'', ''b''])] = Inr dm \<and>
     store_ok dm \<and> edge_rows dm ''a'' ''b'' = [(1, 1, 1)] \<and> edge_rows dm ''b'' ''c'' = []"
proof -
  from feedLines_closed_form[of empty_database "[(1, [''a'', ''b''])]"] obtain dm where
    dm: "feedLines (DataModule_init empty_database) [(1, [''a'', ''b''])] = Inr dm" "store_ok dm"
    and other: "\<And>p c. p \<noteq> c \<Longrightarrow> edge_rows dm p c =
        (if total_count [(1, [''a'', ''b''])] p c = 0 then []
         else [(int (total_count [(1, [''a'', ''b''])] p c),
                total_rating [(1, [''a'', ''b''])] p c, total_squares [(1, [''a'', ''b''])] p c)])"
    by blast
  have "edge_rows dm ''a'' ''b'' = [(1, 1, 1)]"
    by (simp add: other total_count_def total_rating_def total_squares_def cooccur_def)
  moreover have "edge_rows dm ''b'' ''c'' = []"
    by (simp add: other total_count_def total_rating_def total_squares_def cooccur_def)
  ultimately show ?thesis using dm by blast
qed









section \<open>The properties of the specification\<close>



text \<open>
  C2: \<^verbatim>\<open>computeRating\<close> returns nothing. After \<^verbatim>\<open>feedLine(1, ['a','b','c'])\<close>
  its SELECT finds the mean rating 1 of \<^verbatim>\<open>'a'\<close>, and the method returns
  \<^verbatim>\<open>None\<close>.
\<close>

theorem computeRating_returns_None:
  "(case feedLine (DataModule_init empty_database) 1 [''a'', ''b'', ''c''] of
      Inl e \<Rightarrow> False
    | Inr dm \<Rightarrow>
        getChildren dm ''a'' = [(''b'', 1, 1, 1), (''c'', 1, 1, 1)] \<and>
        select_rating dm ''a'' = Some 1 \<and>
        computeRating dm ''a'' = None)"
  by code_simp















text \<open>
  C8: no method call on a constructed datastore loses a row: the element rows stay as they
  are and every relation row keeps its name, id and parent. Constructing a
  \<^verbatim>\<open>DataModule\<close> is what deletes: it drops both tables of the database it opens.
\<close>

theorem run_calls_keep_rows:
  assumes "run_calls dm calls = Inr dm'"
  shows "keeps_rows dm dm'"
  using assms by (rule run_calls_keeps)

theorem run_calls_keep_rows_witness:
  "\<exists>dm dm'. feedLines (DataModule_init empty_database) [(1, [''a'', ''b''])] = Inr dm \<and>
     run_calls dm [FeedLine 10 [''a'', ''c''], UpdateChild ''a'' ''b'' 7 3,
                   AddRelatedElement ''z'' ''a'' 1 1, Commit] = Inr dm' \<and>
     keeps_rows dm dm'"
proof -
  from fed_example obtain dm where
    dm: "feedLines (DataModule_init empty_database) [(1, [''a'', ''b''])] = Inr dm"
    and ok: "store_ok dm"
    by blast
  let ?cs = "[FeedLine 10 [''a'', ''c''], UpdateChild ''a'' ''b'' 7 3,
              AddRelatedElement ''z'' ''a'' 1 1, Commit]"
  from feedLine_ok[OF ok, of 10 "[''a'', ''c'']"] obtain dm1 where
    "feedLine dm 10 [''a'', ''c''] = Inr dm1" by blast
  then have "\<exists>dm'. run_calls dm ?cs = Inr dm'"
    by (simp add: updateChild_def addRelatedElement_def)
  then obtain dm' where run: "run_calls dm ?cs = Inr dm'" by blast
  from run_calls_keep_rows[OF run] dm run show ?thesis by blast
qed

theorem DataModule_init_deletes_counterexample:
  "(case feedLine (DataModule_init empty_database) 1 [''a'', ''b''] of
      Inl e \<Rightarrow> False
    | Inr dm \<Rightarrow>
        file_elements (committed (commit dm)) =
          [\<lparr>e_class = ''a'', e_id = 1\<rparr>, \<lparr>e_class = ''b'', e_id = 2\<rparr>] \<and>
        length (file_relations (committed (commit dm))) = 2 \<and>
        elements (DataModule_init (committed (commit dm))) = [] \<and>
        relations (DataModule_init (committed (commit dm))) = [])"
  by code_simp



text \<open>
  C10: \<^verbatim>\<open>existsChildElement\<close> returns \<^verbatim>\<open>None\<close> for every parent and child,
  whatever the store holds.
\<close>

theorem existsChildElement_None: "existsChildElement dm parent child = None"
  by (simp add: existsChildElement_def)

end
